theory Spec2Isabelle
  imports Complex_Main
begin

section \<open>Meal Maker: the overlap-fraction recipe matcher\<close>

text \<open>
  The development embeds \<^verbatim>\<open>suggest_recipes\<close> of \<^verbatim>\<open>MealMakerPrototypeGUI.py\<close> (lines 112-123),
  the module-level catalog \<^verbatim>\<open>recipes\<close> it reads (lines 47-108), the check of
  \<^verbatim>\<open>HomePage.on_find\<close> (lines 316-321), and the tokenisation of \<^verbatim>\<open>MealMakerShell.on_search\<close>
  (lines 488-492) together with the call made by \<^verbatim>\<open>SearchWorker.run\<close> (line 138).
  \<^verbatim>\<open>suggest_recipes\<close> is modelled twice: as a function on values, and as a program on a heap
  of list and dict objects.

  The second file of the repository defines another \<^verbatim>\<open>suggest_recipes\<close> that ranks by the
  cosine similarity of sentence embeddings; it is not part of this development.
\<close>

subsection \<open>Python strings\<close>

text \<open>
  A Python \<^verbatim>\<open>str\<close> is a sequence of code points. It is modelled as a HOL \<^typ>\<open>string\<close> whose
  characters are read as the code points U+0000 to U+00FF; text with code points beyond
  that range is outside the model.

  \<^verbatim>\<open>str.isspace\<close>, and with it \<^verbatim>\<open>str.strip()\<close> and \<^verbatim>\<open>str.split()\<close> without arguments, treat
  as whitespace, within this range, the code points 9-13, 28-32, 133 and 160.
\<close>

definition isspace :: "char \<Rightarrow> bool" where
  "isspace c = (c \<in> {CHR 0x09, CHR 0x0A, CHR 0x0B, CHR 0x0C, CHR 0x0D,
                      CHR 0x1C, CHR 0x1D, CHR 0x1E, CHR 0x1F, CHR 0x20,
                      CHR 0x85, CHR 0xA0})"

text \<open>
  \<^verbatim>\<open>str.lower\<close>: the upper-case letters of the range are A-Z (65-90) and U+00C0-U+00DE
  without the multiplication sign U+00D7; each has its lower-case form 32 places further.
\<close>

definition lower_char :: "char \<Rightarrow> char" where
  "lower_char c =
     (let n = (of_char c :: nat)
      in if (65 \<le> n \<and> n \<le> 90) \<or> (192 \<le> n \<and> n \<le> 222 \<and> n \<noteq> 215)
         then char_of (n + 32) else c)"

definition str_lower :: "string \<Rightarrow> string" where
  "str_lower s = map lower_char s"

definition str_strip :: "string \<Rightarrow> string" where
  "str_strip s = rev (dropWhile isspace (rev (dropWhile isspace s)))"

text \<open>\<^verbatim>\<open>s.replace(old, new)\<close> for one-character \<^verbatim>\<open>old\<close> and \<^verbatim>\<open>new\<close>, as \<^verbatim>\<open>on_search\<close> uses it.\<close>

definition str_replace :: "char \<Rightarrow> char \<Rightarrow> string \<Rightarrow> string" where
  "str_replace old new s = map (\<lambda>c. if c = old then new else c) s"

text \<open>
  \<^verbatim>\<open>s.split()\<close>: the maximal runs of non-whitespace characters, in order. The first argument
  of \<open>split_from\<close> is the run read so far.
\<close>

fun split_from :: "string \<Rightarrow> string \<Rightarrow> string list" where
  "split_from cur [] = (if cur = [] then [] else [cur])"
| "split_from cur (c # cs) =
     (if isspace c
      then (if cur = [] then split_from [] cs else cur # split_from [] cs)
      else split_from (cur @ [c]) cs)"

definition str_split :: "string \<Rightarrow> string list" where
  "str_split s = split_from [] s"

subsection \<open>Data model\<close>

text \<open>
  A catalog entry is a dict with the keys \<^verbatim>\<open>name\<close>, \<^verbatim>\<open>ingredients\<close>, \<^verbatim>\<open>instructions\<close> and
  \<^verbatim>\<open>tags\<close>; a result is a dict with the keys \<^verbatim>\<open>name\<close>, \<^verbatim>\<open>score\<close>, \<^verbatim>\<open>ingredients\<close> and
  \<^verbatim>\<open>instructions\<close>. The three keys they share are the fields of a common record.
\<close>

record entry =
  name :: string
  ingredients :: "string list"
  instructions :: string

record recipe = entry +
  tags :: "string list"

text \<open>
  The score is the quotient of two Python ints under true division, a float. It is modelled
  as the exact rational quotient. CPython rounds the quotient to the nearest double, which
  never inverts the order of two quotients, and keeps two different quotients apart as long
  as the denominators (the numbers of distinct ingredients) stay below \<open>2\<^sup>2\<^sup>6\<close>.
\<close>

record suggestion = entry +
  score :: rat

datatype py_error = ZeroDivisionError

text \<open>\<^verbatim>\<open>a / b\<close> on ints raises \<^verbatim>\<open>ZeroDivisionError\<close> when \<^verbatim>\<open>b\<close> is zero.\<close>

definition truediv :: "int \<Rightarrow> int \<Rightarrow> py_error + rat" where
  "truediv a b = (if b = 0 then Inl ZeroDivisionError else Inr (of_int a / of_int b))"

subsection \<open>List operations\<close>

text \<open>
  \<^verbatim>\<open>list.sort(key=..., reverse=...)\<close> is a stable sort. With \<^verbatim>\<open>reverse=True\<close> CPython reverses
  the list, sorts it stably in ascending order of the key, and reverses the result, which
  keeps elements with equal keys in their original order.
\<close>

definition list_sort :: "('a \<Rightarrow> 'k::linorder) \<Rightarrow> bool \<Rightarrow> 'a list \<Rightarrow> 'a list" where
  "list_sort key reverse xs =
     (if reverse then rev (sort_key key (rev xs)) else sort_key key xs)"

text \<open>
  \<^verbatim>\<open>xs[:k]\<close> for an int \<^verbatim>\<open>k\<close>: a negative \<^verbatim>\<open>k\<close> counts from the end, and a bound outside the
  list is clipped to it.
\<close>

definition slice_to :: "'a list \<Rightarrow> int \<Rightarrow> 'a list" where
  "slice_to xs k =
     (if k < 0 then take (nat (int (length xs) + k)) xs else take (nat k) xs)"

subsection \<open>\<^verbatim>\<open>suggest_recipes\<close>\<close>

text \<open>
  Line 113: the strings of \<^verbatim>\<open>user_ingredients\<close> that are not blank, stripped, lower-cased and
  collected into a set.
\<close>

definition user_set_of :: "string list \<Rightarrow> string set" where
  "user_set_of user_ingredients =
     set (map str_lower (map str_strip (filter (\<lambda>i. str_strip i \<noteq> []) user_ingredients)))"

text \<open>
  Lines 116-120: the body of the loop, for one recipe \<open>r\<close>. The quotient is already a float,
  so \<^verbatim>\<open>float(score)\<close> changes nothing.
\<close>

definition score_recipe :: "string set \<Rightarrow> recipe \<Rightarrow> py_error + suggestion" where
  "score_recipe user_set r =
     (let r_set = set (map str_lower (ingredients r));
          overlap = int (card (user_set \<inter> r_set))
      in case truediv overlap (max 1 (int (card r_set))) of
           Inl e \<Rightarrow> Inl e
         | Inr sc \<Rightarrow>
             Inr \<lparr>name = name r, ingredients = ingredients r,
                  instructions = instructions r, score = sc\<rparr>)"

text \<open>
  Lines 114-120: the loop over the catalog. The last argument is the list \<^verbatim>\<open>scored\<close>, to
  which every turn appends; an error of the body ends the loop.
\<close>

fun score_loop :: "string set \<Rightarrow> recipe list \<Rightarrow> suggestion list \<Rightarrow> py_error + suggestion list" where
  "score_loop user_set [] scored = Inr scored"
| "score_loop user_set (r # rs) scored =
     (case score_recipe user_set r of
        Inl e \<Rightarrow> Inl e
      | Inr d \<Rightarrow> score_loop user_set rs (scored @ [d]))"

text \<open>
  The function reads the module-level list \<^verbatim>\<open>recipes\<close>; here the catalog is its first
  argument.
\<close>

definition suggest_recipes :: "recipe list \<Rightarrow> string list \<Rightarrow> int \<Rightarrow> py_error + suggestion list" where
  "suggest_recipes catalog user_ingredients top_k =
     (let user_set = user_set_of user_ingredients
      in case score_loop user_set catalog [] of
           Inl e \<Rightarrow> Inl e
         | Inr scored \<Rightarrow> Inr (slice_to (list_sort score True scored) top_k))"

subsection \<open>The callers: \<^verbatim>\<open>on_find\<close>, \<^verbatim>\<open>on_search\<close> and \<^verbatim>\<open>SearchWorker.run\<close>\<close>

text \<open>
  Lines 316-321: \<^verbatim>\<open>HomePage.on_find\<close> reads the input box. For text that is blank after
  \<^verbatim>\<open>strip()\<close> it shows a warning and returns (\<open>None\<close>); otherwise it emits \<^verbatim>\<open>start_search\<close>
  with the text as typed (\<open>Some text\<close>).
\<close>

definition on_find :: "string \<Rightarrow> string option" where
  "on_find text = (if str_strip text = [] then None else Some text)"

text \<open>Lines 491-492: the text of the search becomes the list of ingredients.\<close>

definition on_search_ingredients :: "string \<Rightarrow> string list" where
  "on_search_ingredients ingredient_string =
     (let raw = str_replace CHR '','' CHR '' '' (str_lower ingredient_string)
      in map str_strip (filter (\<lambda>i. str_strip i \<noteq> []) (str_split raw)))"

text \<open>Line 138: the worker calls \<^verbatim>\<open>suggest_recipes(self.ingredients, top_k=3)\<close>.\<close>

definition on_search :: "recipe list \<Rightarrow> string \<Rightarrow> py_error + suggestion list" where
  "on_search catalog ingredient_string =
     suggest_recipes catalog (on_search_ingredients ingredient_string) 3"

text \<open>
  Line 470 connects \<^verbatim>\<open>start_search\<close> to \<^verbatim>\<open>on_search\<close>: a click on the button either ends in
  the warning, with no search, or runs the search on the text.
\<close>

definition find_clicked :: "recipe list \<Rightarrow> string \<Rightarrow> (py_error + suggestion list) option" where
  "find_clicked catalog text =
     (case on_find text of
        None \<Rightarrow> None
      | Some ingredient_string \<Rightarrow> Some (on_search catalog ingredient_string))"

subsection \<open>Objects: \<^verbatim>\<open>suggest_recipes\<close> on a heap\<close>

text \<open>
  In the definitions above a list or a dict is a value. In Python it is an object that is
  reached through references and changed in place, and a result dict holds the very list
  object that is the \<^verbatim>\<open>ingredients\<close> of its recipe. The second model of \<^verbatim>\<open>suggest_recipes\<close>
  makes this explicit. A heap is the list of the objects created so far, and the address of
  an object is its position; a new object goes to the end. Strings and floats are immutable
  and are values.
\<close>

type_synonym addr = nat

datatype val = Str string | Float rat | Ref addr

datatype obj = ListObj "val list" | DictObj "(string \<times> val) list"

type_synonym heap = "obj list"

text \<open>
  An operation on an object of the wrong kind raises \<^verbatim>\<open>TypeError\<close>, a missing key
  \<^verbatim>\<open>KeyError\<close>.
\<close>

datatype py_exception = Raised py_error | KeyError string | TypeError

definition bind_exn :: "'e + 'a \<Rightarrow> ('a \<Rightarrow> 'e + 'b) \<Rightarrow> 'e + 'b" where
  "bind_exn m f = (case m of Inl e \<Rightarrow> Inl e | Inr a \<Rightarrow> f a)"

definition obj_at :: "heap \<Rightarrow> val \<Rightarrow> obj option" where
  "obj_at h v =
     (case v of Ref a \<Rightarrow> (if a < length h then Some (h ! a) else None) | _ \<Rightarrow> None)"

definition list_at :: "heap \<Rightarrow> val \<Rightarrow> val list option" where
  "list_at h v = (case obj_at h v of Some (ListObj vs) \<Rightarrow> Some vs | _ \<Rightarrow> None)"

definition dict_at :: "heap \<Rightarrow> val \<Rightarrow> (string \<times> val) list option" where
  "dict_at h v = (case obj_at h v of Some (DictObj kvs) \<Rightarrow> Some kvs | _ \<Rightarrow> None)"

text \<open>A list display or a dict display creates a new object.\<close>

definition alloc :: "obj \<Rightarrow> heap \<Rightarrow> val \<times> heap" where
  "alloc ob h = (Ref (length h), h @ [ob])"

text \<open>
  Iterating over \<open>v\<close>. The model knows lists only: Python would also iterate over a string,
  character by character, where the model raises \<^verbatim>\<open>TypeError\<close>. The catalogs of the statements
  below have lists in these places.
\<close>

definition the_list :: "heap \<Rightarrow> val \<Rightarrow> py_exception + val list" where
  "the_list h v = (case list_at h v of None \<Rightarrow> Inl TypeError | Some vs \<Rightarrow> Inr vs)"

text \<open>\<^verbatim>\<open>d[k]\<close>\<close>

definition getitem :: "heap \<Rightarrow> val \<Rightarrow> string \<Rightarrow> py_exception + val" where
  "getitem h d k =
     (case dict_at h d of
        None \<Rightarrow> Inl TypeError
      | Some kvs \<Rightarrow> (case map_of kvs k of None \<Rightarrow> Inl (KeyError k) | Some v \<Rightarrow> Inr v))"

text \<open>\<^verbatim>\<open>map(str.lower, ...)\<close> accepts strings only.\<close>

fun lower_all :: "val list \<Rightarrow> py_exception + string list" where
  "lower_all [] = Inr []"
| "lower_all (Str s # vs) =
     (case lower_all vs of Inl e \<Rightarrow> Inl e | Inr ls \<Rightarrow> Inr (str_lower s # ls))"
| "lower_all (v # vs) = Inl TypeError"

definition int_truediv :: "int \<Rightarrow> int \<Rightarrow> py_exception + rat" where
  "int_truediv a b = (case truediv a b of Inl e \<Rightarrow> Inl (Raised e) | Inr q \<Rightarrow> Inr q)"

text \<open>
  Lines 116-120 for the recipe behind the reference \<open>r\<close>: the dict of line 120, not yet
  stored. Its \<^verbatim>\<open>ingredients\<close> is the reference found in the recipe, not a copy of the list.
\<close>

definition score_recipe_h :: "heap \<Rightarrow> string set \<Rightarrow> val \<Rightarrow> py_exception + obj" where
  "score_recipe_h h user_set r =
     bind_exn (getitem h r ''ingredients'') (\<lambda>ing.
     bind_exn (the_list h ing) (\<lambda>vs.
     bind_exn (lower_all vs) (\<lambda>ls.
     let r_set = set ls;
         overlap = int (card (user_set \<inter> r_set))
     in
     bind_exn (int_truediv overlap (max 1 (int (card r_set)))) (\<lambda>sc.
     bind_exn (getitem h r ''name'') (\<lambda>nm.
     bind_exn (getitem h r ''ingredients'') (\<lambda>ing'.
     bind_exn (getitem h r ''instructions'') (\<lambda>ins.
     Inr (DictObj [(''name'', nm), (''score'', Float sc),
                   (''ingredients'', ing'), (''instructions'', ins)]))))))))"

text \<open>\<^verbatim>\<open>l.append(v)\<close> writes to the object of \<open>l\<close>.\<close>

definition list_append :: "heap \<Rightarrow> val \<Rightarrow> val \<Rightarrow> py_exception + heap" where
  "list_append h l v =
     (case l of
        Ref a \<Rightarrow> (case list_at h l of
                    None \<Rightarrow> Inl TypeError
                  | Some vs \<Rightarrow> Inr (h[a := ListObj (vs @ [v])]))
      | _ \<Rightarrow> Inl TypeError)"

text \<open>
  Lines 115-120. The iterator of a \<^verbatim>\<open>for\<close> loop over a list keeps a position \<open>i\<close> and reads
  the list object anew in every turn, so a body that made that list longer could keep the
  loop running: the loop is a partial function, and \<open>None\<close> stands for a run without end.
\<close>

partial_function (option) score_loop_h ::
  "heap \<Rightarrow> val \<Rightarrow> val \<Rightarrow> string set \<Rightarrow> nat \<Rightarrow> (py_exception + heap) option" where
  "score_loop_h h recipes_ref scored user_set i =
     (case list_at h recipes_ref of
        None \<Rightarrow> Some (Inl TypeError)
      | Some rs \<Rightarrow>
          if i < length rs then
            (case score_recipe_h h user_set (rs ! i) of
               Inl e \<Rightarrow> Some (Inl e)
             | Inr d \<Rightarrow>
                 (case alloc d h of (dref, h1) \<Rightarrow>
                    (case list_append h1 scored dref of
                       Inl e \<Rightarrow> Some (Inl e)
                     | Inr h2 \<Rightarrow> score_loop_h h2 recipes_ref scored user_set (Suc i))))
          else Some (Inr h))"

declare score_loop_h.simps [code]

text \<open>
  Line 122. \<^verbatim>\<open>sort\<close> first computes the key \<^verbatim>\<open>x["score"]\<close> of every element, then sorts the
  elements by their keys and writes the outcome to the object of the list. The keys of the
  model are floats, as line 120 stores them; any other key is a \<^verbatim>\<open>TypeError\<close> here.
\<close>

fun score_keys :: "heap \<Rightarrow> val list \<Rightarrow> py_exception + rat list" where
  "score_keys h [] = Inr []"
| "score_keys h (x # xs) =
     (case getitem h x ''score'' of
        Inl e \<Rightarrow> Inl e
      | Inr (Float k) \<Rightarrow> (case score_keys h xs of Inl e \<Rightarrow> Inl e | Inr ks \<Rightarrow> Inr (k # ks))
      | Inr _ \<Rightarrow> Inl TypeError)"

definition sort_by_score :: "heap \<Rightarrow> val \<Rightarrow> py_exception + heap" where
  "sort_by_score h l =
     (case l of
        Ref a \<Rightarrow>
          (case list_at h l of
             None \<Rightarrow> Inl TypeError
           | Some vs \<Rightarrow>
               (case score_keys h vs of
                  Inl e \<Rightarrow> Inl e
                | Inr ks \<Rightarrow> Inr (h[a := ListObj (map snd (list_sort fst True (zip ks vs)))])))
      | _ \<Rightarrow> Inl TypeError)"

text \<open>
  Lines 112-123 on the heap \<open>h\<close>, with \<open>recipes_ref\<close> the value of the module-level name
  \<^verbatim>\<open>recipes\<close>. The list \<^verbatim>\<open>user_ingredients\<close> is only read, and is passed as a value. The slice of
  line 123 is a new list; the call returns its reference together with the heap it leaves.
\<close>

definition suggest_recipes_h ::
  "heap \<Rightarrow> val \<Rightarrow> string list \<Rightarrow> int \<Rightarrow> (py_exception + val \<times> heap) option" where
  "suggest_recipes_h h recipes_ref user_ingredients top_k =
     (let user_set = user_set_of user_ingredients;
          (scored, h0) = alloc (ListObj []) h
      in case score_loop_h h0 recipes_ref scored user_set 0 of
           None \<Rightarrow> None
         | Some r \<Rightarrow>
             Some (bind_exn r (\<lambda>h1.
                   bind_exn (sort_by_score h1 scored) (\<lambda>h2.
                   bind_exn (the_list h2 scored) (\<lambda>vs.
                   Inr (alloc (ListObj (slice_to vs top_k)) h2))))))"

text \<open>
  What a heap holds, read back as values: a list of strings, a recipe, a result dict, the
  catalog behind a reference, and a list of results behind a reference. Each is \<open>None\<close>
  when the objects do not have that shape.
\<close>

fun strs_of :: "val list \<Rightarrow> string list option" where
  "strs_of [] = Some []"
| "strs_of (Str s # vs) = map_option ((#) s) (strs_of vs)"
| "strs_of (v # vs) = None"

definition field :: "heap \<Rightarrow> val \<Rightarrow> string \<Rightarrow> val option" where
  "field h d k = (case dict_at h d of None \<Rightarrow> None | Some kvs \<Rightarrow> map_of kvs k)"

definition str_list_at :: "heap \<Rightarrow> val \<Rightarrow> string list option" where
  "str_list_at h v = (case list_at h v of None \<Rightarrow> None | Some vs \<Rightarrow> strs_of vs)"

definition recipe_at :: "heap \<Rightarrow> val \<Rightarrow> recipe option" where
  "recipe_at h d =
     (case (field h d ''name'', field h d ''ingredients'',
            field h d ''instructions'', field h d ''tags'') of
        (Some (Str n), Some ing, Some (Str ins), Some tg) \<Rightarrow>
          (case (str_list_at h ing, str_list_at h tg) of
             (Some is, Some ts) \<Rightarrow>
               Some \<lparr>name = n, ingredients = is, instructions = ins, tags = ts\<rparr>
           | _ \<Rightarrow> None)
      | _ \<Rightarrow> None)"

definition suggestion_at :: "heap \<Rightarrow> val \<Rightarrow> suggestion option" where
  "suggestion_at h d =
     (case (field h d ''name'', field h d ''score'',
            field h d ''ingredients'', field h d ''instructions'') of
        (Some (Str n), Some (Float sc), Some ing, Some (Str ins)) \<Rightarrow>
          (case str_list_at h ing of
             Some is \<Rightarrow> Some \<lparr>name = n, ingredients = is, instructions = ins, score = sc\<rparr>
           | None \<Rightarrow> None)
      | _ \<Rightarrow> None)"

definition catalog_at :: "heap \<Rightarrow> val \<Rightarrow> recipe list option" where
  "catalog_at h l =
     (case list_at h l of None \<Rightarrow> None | Some vs \<Rightarrow> those (map (recipe_at h) vs))"

definition result_at :: "heap \<Rightarrow> val \<Rightarrow> suggestion list option" where
  "result_at h l =
     (case list_at h l of None \<Rightarrow> None | Some vs \<Rightarrow> those (map (suggestion_at h) vs))"

subsection \<open>The catalog of the source\<close>

definition recipes :: "recipe list" where
  "recipes =
   [\<lparr>name = ''Vegetable Omelette'',
     ingredients = [''eggs'', ''onion'', ''tomato'', ''spinach'', ''salt'', ''pepper''],
     instructions = ''Whisk eggs. Cook chopped veggies in a pan. Add eggs and fold.'',
     tags = [''breakfast'', ''fast'', ''healthy'']\<rparr>,
    \<lparr>name = ''Pasta with Tomato Sauce'',
     ingredients = [''pasta'', ''tomato'', ''garlic'', ''olive oil'', ''salt'', ''basil''],
     instructions = ''Boil pasta. Simmer garlic and tomato sauce. Mix.'',
     tags = [''lunch'', ''easy'']\<rparr>,
    \<lparr>name = ''Mexican Chicken Tacos'',
     ingredients = [''chicken'', ''tortillas'', ''onion'', ''cilantro'', ''lime''],
     instructions = ''Saut'' @ [CHR 0xE9] @ '' chicken. Warm tortillas. Add toppings.'',
     tags = [''latin'', ''protein'']\<rparr>,
    \<lparr>name = ''Lentil Soup'',
     ingredients = [''lentils'', ''carrot'', ''onion'', ''celery'', ''garlic'', ''salt''],
     instructions = ''Simmer all ingredients for 30 min.'',
     tags = [''vegan'', ''cheap'', ''batch-cooking'']\<rparr>,
    \<lparr>name = ''Fried Rice'',
     ingredients = [''rice'', ''egg'', ''carrot'', ''pea'', ''soy sauce'', ''onion''],
     instructions = ''Stir fry ingredients in wok.'',
     tags = [''asian'', ''use-leftovers'']\<rparr>,
    \<lparr>name = ''Chicken Rice Bowl'',
     ingredients = [''rice'', ''chicken'', ''soy sauce'', ''carrot'', ''onion''],
     instructions = ''Cook rice. Stir fry chicken and veggies.'',
     tags = [''balanced'']\<rparr>,
    \<lparr>name = ''Guacamole'',
     ingredients = [''avocado'', ''onion'', ''tomato'', ''lime'', ''cilantro'', ''salt''],
     instructions = ''Mash avocado. Mix chopped ingredients.'',
     tags = [''dip'', ''healthy'', ''snack'']\<rparr>,
    \<lparr>name = ''Greek Salad'',
     ingredients = [''tomato'', ''cucumber'', ''olive oil'', ''onion'', ''feta'', ''oregano''],
     instructions = ''Chop and mix all ingredients.'',
     tags = [''veggie'', ''fresh'', ''low-cal'']\<rparr>,
    \<lparr>name = ''Fruit Yogurt Bowl'',
     ingredients = [''yogurt'', ''banana'', ''berries'', ''honey'', ''granola''],
     instructions = ''Layer yogurt, fruit and granola.'',
     tags = [''breakfast'', ''healthy'']\<rparr>,
    \<lparr>name = ''Stir-Fry Veggies'',
     ingredients = [''broccoli'', ''carrot'', ''pepper'', ''soy sauce'', ''garlic''],
     instructions = ''Stir fry on high heat.'',
     tags = [''vegan'', ''fast'']\<rparr>]"

subsection \<open>Vocabulary of the statements\<close>

text \<open>
  The dict that line 120 appends for the recipe \<open>r\<close>, with the division of line 119 written
  out: what \<open>score_recipe\<close> returns when the division succeeds.
\<close>

definition scored_dict :: "string set \<Rightarrow> recipe \<Rightarrow> suggestion" where
  "scored_dict user_set r =
     \<lparr>name = name r, ingredients = ingredients r, instructions = instructions r,
      score = of_int (int (card (user_set \<inter> set (map str_lower (ingredients r)))))
              / of_int (max 1 (int (card (set (map str_lower (ingredients r))))))\<rparr>"

text \<open>
  The score as the specification words it: the distinct normalized ingredients of a recipe
  are its ingredient names lower-cased, each kept once; the score is the number of them
  that the user has, divided by their number, with a denominator of at least 1.
\<close>

definition distinct_ingredients :: "recipe \<Rightarrow> string list" where
  "distinct_ingredients r = remdups (map str_lower (ingredients r))"

definition spec_score :: "string set \<Rightarrow> recipe \<Rightarrow> rat" where
  "spec_score user_set r =
     of_nat (length (filter (\<lambda>i. i \<in> user_set) (distinct_ingredients r)))
     / of_nat (max 1 (length (distinct_ingredients r)))"

text \<open>
  Two notions for the heap model. \<open>keeps n h h'\<close>: the heap \<open>h'\<close> has every object of \<open>h\<close>,
  unchanged except possibly the one at address \<open>n\<close>. \<open>is_scored h hc us v r\<close>: in the heap
  \<open>hc\<close>, the reference \<open>v\<close> leads to the dict of line 120 for the recipe \<open>r\<close>, whose
  \<^verbatim>\<open>ingredients\<close> is a list of strings already in \<open>h\<close>.
\<close>

definition keeps :: "addr \<Rightarrow> heap \<Rightarrow> heap \<Rightarrow> bool" where
  "keeps n h h' = (length h \<le> length h' \<and> (\<forall>a<length h. a \<noteq> n \<longrightarrow> h' ! a = h ! a))"

definition is_scored :: "heap \<Rightarrow> heap \<Rightarrow> string set \<Rightarrow> val \<Rightarrow> recipe \<Rightarrow> bool" where
  "is_scored h hc us v r =
     (v \<noteq> Ref (length h)
      \<and> field hc v ''name'' = Some (Str (name r))
      \<and> field hc v ''score'' = Some (Float (score (scored_dict us r)))
      \<and> field hc v ''instructions'' = Some (Str (instructions r))
      \<and> (case field hc v ''ingredients'' of
            None \<Rightarrow> False
          | Some ing \<Rightarrow> str_list_at h ing = Some (ingredients r)))"

section \<open>Auxiliary facts\<close>

subsection \<open>Sorting and slicing\<close>

lemma insort_key_map:
  "insort_key k (g x) (map g xs) = map g (insort_key (\<lambda>a. k (g a)) x xs)"
  by (induction xs) simp_all

lemma sort_key_map: "sort_key k (map g xs) = map g (sort_key (\<lambda>a. k (g a)) xs)"
  by (induction xs) (simp_all add: insort_key_map)

lemma list_sort_map: "list_sort k b (map g xs) = map g (list_sort (\<lambda>a. k (g a)) b xs)"
  by (simp add: list_sort_def sort_key_map rev_map)

lemma slice_to_map: "slice_to (map g xs) k = map g (slice_to xs k)"
  by (simp add: slice_to_def take_map)

text \<open>
  Insertion keeps a list ordered by key, and by \<open>Q\<close> among equal keys, when the new element
  is \<open>Q\<close>-before every element of the list.
\<close>

lemma insort_key_stable:
  "sorted_wrt (\<lambda>a b. f a \<le> f b \<and> (f a = f b \<longrightarrow> Q a b)) ys \<Longrightarrow> \<forall>y\<in>set ys. Q x y
   \<Longrightarrow> sorted_wrt (\<lambda>a b. f a \<le> f b \<and> (f a = f b \<longrightarrow> Q a b)) (insort_key f x ys)"
proof (induction ys)
  case Nil
  then show ?case by simp
next
  case (Cons y ys)
  show ?case
  proof (cases "f x \<le> f y")
    case True
    then show ?thesis using Cons.prems by auto
  next
    case False
    then show ?thesis using Cons by (auto simp: set_insort_key)
  qed
qed

lemma sort_key_sorted_stable:
  "sorted_wrt Q xs \<Longrightarrow>
   sorted_wrt (\<lambda>a b. f a \<le> f b \<and> (f a = f b \<longrightarrow> Q a b)) (sort_key f xs)"
  by (induction xs) (simp_all add: insort_key_stable)

lemma list_sort_reverse_stable:
  assumes "sorted_wrt Q xs"
  shows "sorted_wrt (\<lambda>a b. f b \<le> f a \<and> (f a = f b \<longrightarrow> Q a b)) (list_sort f True xs)"
proof -
  have "sorted_wrt (\<lambda>a b. Q b a) (rev xs)"
    using assms by (simp add: sorted_wrt_rev)
  then have "sorted_wrt (\<lambda>a b. f a \<le> f b \<and> (f a = f b \<longrightarrow> Q b a)) (sort_key f (rev xs))"
    by (rule sort_key_sorted_stable)
  then have "sorted_wrt (\<lambda>a b. f b \<le> f a \<and> (f b = f a \<longrightarrow> Q a b)) (rev (sort_key f (rev xs)))"
    by (simp add: sorted_wrt_rev)
  then show ?thesis
    by (simp add: list_sort_def eq_commute)
qed

lemma sorted_wrt_slice_to: "sorted_wrt R xs \<Longrightarrow> sorted_wrt R (slice_to xs k)"
  by (simp add: slice_to_def)

lemma set_slice_to: "set (slice_to xs k) \<subseteq> set xs"
  by (simp add: slice_to_def set_take_subset)

lemma distinct_slice_to: "distinct xs \<Longrightarrow> distinct (slice_to xs k)"
  by (simp add: slice_to_def)

lemma length_slice_to_pos: "0 < k \<Longrightarrow> length (slice_to xs k) = min (nat k) (length xs)"
  by (simp add: slice_to_def)

lemma set_list_sort: "set (list_sort f b xs) = set xs"
  by (simp add: list_sort_def)

lemma distinct_list_sort: "distinct (list_sort f b xs) = distinct xs"
  by (simp add: list_sort_def)

lemma length_list_sort: "length (list_sort f b xs) = length xs"
  by (simp add: list_sort_def)

lemma sort_key_all_equal: "\<forall>x\<in>set xs. f x = c \<Longrightarrow> sort_key f xs = xs"
proof (induction xs)
  case Nil
  then show ?case by simp
next
  case (Cons x xs)
  then have "sort_key f (x # xs) = insort_key f x xs" by simp
  also have "\<dots> = x # xs" using Cons.prems by (cases xs) simp_all
  finally show ?case .
qed

lemma list_sort_all_equal:
  assumes "\<forall>x\<in>set xs. f x = c"
  shows "list_sort f b xs = xs"
proof -
  have "sort_key f (rev xs) = rev xs"
    using assms by (intro sort_key_all_equal [where c = c]) simp
  moreover have "sort_key f xs = xs"
    using assms by (rule sort_key_all_equal)
  ultimately show ?thesis by (simp add: list_sort_def)
qed

subsection \<open>The loop\<close>

lemma truediv_max: "truediv a (max 1 b) = Inr (of_int a / of_int (max 1 b))"
  by (simp add: truediv_def max_def)

lemma score_recipe_eq: "score_recipe us r = Inr (scored_dict us r)"
  by (simp add: score_recipe_def scored_dict_def Let_def truediv_max)

lemma score_loop_eq: "score_loop us rs acc = Inr (acc @ map (scored_dict us) rs)"
  by (induction rs arbitrary: acc) (simp_all add: score_recipe_eq)

lemma suggest_recipes_eq:
  "suggest_recipes cat u k =
     Inr (slice_to (list_sort score True (map (scored_dict (user_set_of u)) cat)) k)"
  by (simp add: suggest_recipes_def Let_def score_loop_eq)

text \<open>
  The result is the image of a list of catalog positions: no position twice, each inside
  the catalog, in non-increasing order of score and, among equal scores, in increasing
  order of position.
\<close>

lemma suggest_recipes_positions:
  fixes cat u
  defines "g \<equiv> \<lambda>i. scored_dict (user_set_of u) (cat ! i)"
  shows "\<exists>ps. suggest_recipes cat u k = Inr (map g ps) \<and> distinct ps
           \<and> (\<forall>i\<in>set ps. i < length cat)
           \<and> sorted_wrt (\<lambda>i j. score (g j) \<le> score (g i)
                                  \<and> (score (g i) = score (g j) \<longrightarrow> i < j)) ps"
proof -
  let ?n = "length cat"
  let ?key = "\<lambda>i. score (g i)"
  let ?ps = "slice_to (list_sort ?key True [0..<?n]) k"
  have "map (scored_dict (user_set_of u)) cat = map g [0..<?n]"
    unfolding g_def by (intro nth_equalityI) simp_all
  then have "suggest_recipes cat u k = Inr (map g ?ps)"
    by (simp add: suggest_recipes_eq list_sort_map slice_to_map)
  moreover have "distinct ?ps"
    by (simp add: distinct_slice_to distinct_list_sort)
  moreover have "\<forall>i\<in>set ?ps. i < ?n"
    using set_slice_to [of "list_sort ?key True [0..<?n]" k]
    by (auto simp: set_list_sort)
  moreover have "sorted_wrt (\<lambda>i j. ?key j \<le> ?key i \<and> (?key i = ?key j \<longrightarrow> i < j)) ?ps"
    by (intro sorted_wrt_slice_to list_sort_reverse_stable) simp
  ultimately show ?thesis by blast
qed

subsection \<open>Scores\<close>

lemma card_inter_remdups:
  "card (us \<inter> set xs) = length (filter (\<lambda>i. i \<in> us) (remdups xs))"
proof -
  have "us \<inter> set xs = set (filter (\<lambda>i. i \<in> us) (remdups xs))" by auto
  moreover have "distinct (filter (\<lambda>i. i \<in> us) (remdups xs))" by simp
  ultimately show ?thesis by (simp only: distinct_card)
qed

lemma score_scored_dict: "score (scored_dict us r) = spec_score us r"
proof -
  let ?xs = "map str_lower (ingredients r)"
  have "card (us \<inter> set ?xs) = length (filter (\<lambda>i. i \<in> us) (remdups ?xs))"
    by (rule card_inter_remdups)
  moreover have "card (set ?xs) = length (remdups ?xs)"
    by (simp only: length_remdups_card_conv)
  moreover have "rat_of_int (max 1 (int n)) = rat_of_nat (max 1 n)" for n
    by (simp add: max_def)
  ultimately show ?thesis
    by (simp only: scored_dict_def spec_score_def distinct_ingredients_def
        suggestion.simps of_int_of_nat_eq)
qed

lemma scored_dict_spec:
  "scored_dict us r =
     \<lparr>name = name r, ingredients = ingredients r, instructions = instructions r,
      score = spec_score us r\<rparr>"
  using score_scored_dict [of us r] by (simp add: scored_dict_def)

lemma scored_dict_fields:
  "name (scored_dict us r) = name r"
  "ingredients (scored_dict us r) = ingredients r"
  "instructions (scored_dict us r) = instructions r"
  by (simp_all add: scored_dict_def)

lemma scored_dict_empty:
  "scored_dict {} r =
     \<lparr>name = name r, ingredients = ingredients r, instructions = instructions r, score = 0\<rparr>"
  by (simp add: scored_dict_def)

lemma score_scored_dict_bounds:
  "0 \<le> score (scored_dict us r) \<and> score (scored_dict us r) \<le> 1"
proof -
  have "card (us \<inter> set (map str_lower (ingredients r)))
          \<le> card (set (map str_lower (ingredients r)))"
    by (intro card_mono) simp_all
  then show ?thesis
    by (simp add: scored_dict_def max_def)
qed

lemma score_scored_dict_full:
  assumes "ingredients r \<noteq> []" "set (map str_lower (ingredients r)) \<subseteq> us"
  shows "score (scored_dict us r) = 1"
proof -
  have "us \<inter> set (map str_lower (ingredients r)) = set (map str_lower (ingredients r))"
    using assms(2) by auto
  moreover have "0 < card (set (map str_lower (ingredients r)))"
    using assms(1) by (simp add: card_gt_0_iff)
  ultimately show ?thesis
    using assms(1) by (simp add: scored_dict_def max_def)
qed

lemma result_in_scored:
  assumes "suggest_recipes cat u top_k = Inr res" "x \<in> set res"
  shows "x \<in> set (map (scored_dict (user_set_of u)) cat)"
  using assms set_slice_to [of "list_sort score True (map (scored_dict (user_set_of u)) cat)" top_k]
  by (auto simp: suggest_recipes_eq set_list_sort)

subsection \<open>Blank text\<close>

lemma str_strip_blank:
  assumes "\<forall>c\<in>set s. isspace c"
  shows "str_strip s = []"
  using assms by (auto simp: str_strip_def dest: set_dropWhileD)

subsection \<open>Reading a heap that has grown\<close>

lemma keeps_refl: "keeps n h h"
  by (simp add: keeps_def)

lemma keeps_trans: "keeps n h1 h2 \<Longrightarrow> keeps n h2 h3 \<Longrightarrow> keeps n h1 h3"
  by (auto simp: keeps_def)

lemma keeps_alloc: "keeps n h (h @ [ob])"
  by (simp add: keeps_def nth_append)

lemma keeps_update: "keeps n h (h[n := ob])"
  by (simp add: keeps_def)

lemma keeps_take: "keeps (length h) h h' \<Longrightarrow> take (length h) h' = h"
  by (auto simp: keeps_def intro!: nth_equalityI)

lemma take_keeps: "take (length h) h' = h \<Longrightarrow> keeps (length h) h h'"
proof -
  assume a: "take (length h) h' = h"
  then have "length (take (length h) h') = length h"
    by simp
  then have "length h \<le> length h'"
    by simp
  moreover have "h' ! a = h ! a" if "a < length h" for a
    using that a by (metis nth_take)
  ultimately show ?thesis by (simp add: keeps_def)
qed

lemma obj_at_keeps:
  "keeps n h h' \<Longrightarrow> obj_at h v = Some ob \<Longrightarrow> v \<noteq> Ref n \<Longrightarrow> obj_at h' v = Some ob"
  by (auto simp: keeps_def obj_at_def split: val.splits if_splits)

lemma list_at_keeps:
  "keeps n h h' \<Longrightarrow> list_at h v = Some vs \<Longrightarrow> v \<noteq> Ref n \<Longrightarrow> list_at h' v = Some vs"
  by (auto simp: list_at_def dest: obj_at_keeps split: option.splits obj.splits)

lemma field_keeps:
  "keeps n h h' \<Longrightarrow> field h v k = Some x \<Longrightarrow> v \<noteq> Ref n \<Longrightarrow> field h' v k = Some x"
  by (auto simp: field_def dict_at_def dest: obj_at_keeps split: option.splits obj.splits)

lemma str_list_at_keeps:
  "keeps n h h' \<Longrightarrow> str_list_at h v = Some ss \<Longrightarrow> v \<noteq> Ref n \<Longrightarrow> str_list_at h' v = Some ss"
  by (auto simp: str_list_at_def dest: list_at_keeps split: option.splits)

lemma obj_at_inside: "obj_at h v = Some ob \<Longrightarrow> v \<noteq> Ref (length h)"
  by (auto simp: obj_at_def split: val.splits if_splits)

lemma list_at_inside: "list_at h v = Some vs \<Longrightarrow> v \<noteq> Ref (length h)"
  by (auto simp: list_at_def dest: obj_at_inside split: option.splits obj.splits)

lemma field_inside: "field h v k = Some x \<Longrightarrow> v \<noteq> Ref (length h)"
  by (auto simp: field_def dict_at_def dest: obj_at_inside split: option.splits obj.splits)

lemma str_list_at_inside: "str_list_at h v = Some ss \<Longrightarrow> v \<noteq> Ref (length h)"
  by (auto simp: str_list_at_def dest: list_at_inside split: option.splits)

lemma recipe_at_Some_iff:
  "recipe_at h v = Some r \<longleftrightarrow>
     field h v ''name'' = Some (Str (name r))
     \<and> (\<exists>ing. field h v ''ingredients'' = Some ing \<and> str_list_at h ing = Some (ingredients r))
     \<and> field h v ''instructions'' = Some (Str (instructions r))
     \<and> (\<exists>tg. field h v ''tags'' = Some tg \<and> str_list_at h tg = Some (tags r))"
  by (cases r) (auto simp: recipe_at_def split: option.splits val.splits)

lemma suggestion_at_Some_iff:
  "suggestion_at h v = Some s \<longleftrightarrow>
     field h v ''name'' = Some (Str (name s))
     \<and> field h v ''score'' = Some (Float (score s))
     \<and> (\<exists>ing. field h v ''ingredients'' = Some ing \<and> str_list_at h ing = Some (ingredients s))
     \<and> field h v ''instructions'' = Some (Str (instructions s))"
  by (cases s) (auto simp: suggestion_at_def split: option.splits val.splits)

lemma list_at_ext: "keeps (length h) h h' \<Longrightarrow> list_at h v = Some vs \<Longrightarrow> list_at h' v = Some vs"
  by (blast intro: list_at_keeps dest: list_at_inside)

lemma field_ext: "keeps (length h) h h' \<Longrightarrow> field h v k = Some x \<Longrightarrow> field h' v k = Some x"
  by (blast intro: field_keeps dest: field_inside)

lemma str_list_at_ext:
  "keeps (length h) h h' \<Longrightarrow> str_list_at h v = Some ss \<Longrightarrow> str_list_at h' v = Some ss"
  by (blast intro: str_list_at_keeps dest: str_list_at_inside)

lemma recipe_at_ext:
  assumes "keeps (length h) h h'" "recipe_at h v = Some r"
  shows "recipe_at h' v = Some r"
  using assms(2) unfolding recipe_at_Some_iff
  by (blast intro: field_ext [OF assms(1)] str_list_at_ext [OF assms(1)])

lemma suggestion_at_ext:
  assumes "keeps (length h) h h'" "suggestion_at h v = Some s"
  shows "suggestion_at h' v = Some s"
  using assms(2) unfolding suggestion_at_Some_iff
  by (blast intro: field_ext [OF assms(1)] str_list_at_ext [OF assms(1)])

lemma those_map_Some_iff:
  "those (map f xs) = Some ys \<longleftrightarrow> list_all2 (\<lambda>x y. f x = Some y) xs ys"
proof (induction xs arbitrary: ys)
  case Nil
  then show ?case by auto
next
  case (Cons x xs)
  then show ?case
    by (cases ys) (auto split: option.splits)
qed

lemma catalog_at_Some_iff:
  "catalog_at h l = Some cat \<longleftrightarrow>
     (\<exists>vs. list_at h l = Some vs \<and> list_all2 (\<lambda>v r. recipe_at h v = Some r) vs cat)"
  by (auto simp: catalog_at_def those_map_Some_iff split: option.splits)

lemma result_at_Some_iff:
  "result_at h l = Some res \<longleftrightarrow>
     (\<exists>vs. list_at h l = Some vs \<and> list_all2 (\<lambda>v s. suggestion_at h v = Some s) vs res)"
  by (auto simp: result_at_def those_map_Some_iff split: option.splits)

lemma catalog_at_ext:
  assumes "keeps (length h) h h'" "catalog_at h l = Some cat"
  shows "catalog_at h' l = Some cat"
proof -
  obtain vs where vs: "list_at h l = Some vs"
    "list_all2 (\<lambda>v r. recipe_at h v = Some r) vs cat"
    using assms(2) by (auto simp: catalog_at_Some_iff)
  have "list_at h' l = Some vs"
    using assms(1) vs(1) by (rule list_at_ext)
  moreover have "list_all2 (\<lambda>v r. recipe_at h' v = Some r) vs cat"
    using vs(2) by (rule list_all2_mono) (rule recipe_at_ext [OF assms(1)])
  ultimately show ?thesis by (auto simp: catalog_at_Some_iff)
qed

lemma result_at_ext:
  assumes "keeps (length h) h h'" "result_at h l = Some res"
  shows "result_at h' l = Some res"
proof -
  obtain vs where vs: "list_at h l = Some vs"
    "list_all2 (\<lambda>v s. suggestion_at h v = Some s) vs res"
    using assms(2) by (auto simp: result_at_Some_iff)
  have "list_at h' l = Some vs"
    using assms(1) vs(1) by (rule list_at_ext)
  moreover have "list_all2 (\<lambda>v s. suggestion_at h' v = Some s) vs res"
    using vs(2) by (rule list_all2_mono) (rule suggestion_at_ext [OF assms(1)])
  ultimately show ?thesis by (auto simp: result_at_Some_iff)
qed

subsection \<open>The call on the heap\<close>

lemma strs_of_lower_all: "strs_of vs = Some ss \<Longrightarrow> lower_all vs = Inr (map str_lower ss)"
  by (induction vs arbitrary: ss rule: strs_of.induct) auto

lemma getitem_field: "field h v k = Some x \<Longrightarrow> getitem h v k = Inr x"
  by (auto simp: field_def getitem_def split: option.splits)

lemma score_recipe_h_eq:
  assumes "field h v ''name'' = Some nm" "field h v ''ingredients'' = Some ing"
    "str_list_at h ing = Some ss" "field h v ''instructions'' = Some ins"
  shows "score_recipe_h h us v =
           Inr (DictObj [(''name'', nm),
                         (''score'', Float (of_int (int (card (us \<inter> set (map str_lower ss))))
                                             / of_int (max 1 (int (card (set (map str_lower ss))))))),
                         (''ingredients'', ing), (''instructions'', ins)])"
proof -
  obtain vs where vs: "list_at h ing = Some vs" "strs_of vs = Some ss"
    using assms(3) by (auto simp: str_list_at_def split: option.splits)
  have "the_list h ing = Inr vs"
    by (simp add: the_list_def vs(1))
  moreover have "lower_all vs = Inr (map str_lower ss)"
    using vs(2) by (rule strs_of_lower_all)
  moreover have "int_truediv a (max 1 b) = Inr (of_int a / of_int (max 1 b))" for a b
    by (simp add: int_truediv_def truediv_max)
  ultimately show ?thesis
    by (simp add: score_recipe_h_def bind_exn_def Let_def
        getitem_field [OF assms(1)] getitem_field [OF assms(2)] getitem_field [OF assms(4)])
qed

lemma is_scored_keeps:
  assumes "keeps (length h) hc hc'" "is_scored h hc us v r"
  shows "is_scored h hc' us v r"
  using assms(2) unfolding is_scored_def
  by (auto split: option.splits dest: field_keeps [OF assms(1)])

lemma is_scored_suggestion:
  assumes "keeps (length h) h hf" "is_scored h hf us v r"
  shows "suggestion_at hf v = Some (scored_dict us r)"
proof -
  obtain ing where ing: "field hf v ''ingredients'' = Some ing"
    "str_list_at h ing = Some (ingredients r)"
    using assms(2) by (auto simp: is_scored_def split: option.splits)
  have "str_list_at hf ing = Some (ingredients r)"
    using assms(1) ing(2) by (rule str_list_at_ext)
  with ing(1) assms(2) show ?thesis
    by (auto simp: suggestion_at_Some_iff is_scored_def scored_dict_fields)
qed

lemma score_loop_h_correct:
  assumes rs: "list_at h rr = Some rvs"
    and cat: "list_all2 (\<lambda>v r. recipe_at h v = Some r) rvs cat"
    and inv: "keeps (length h) h hc" "length h < length hc"
      "list_at hc (Ref (length h)) = Some refs"
      "list_all2 (is_scored h hc us) refs (take i cat)" "i \<le> length cat"
  shows "\<exists>hf refs'. score_loop_h hc rr (Ref (length h)) us i = Some (Inr hf)
           \<and> keeps (length h) h hf \<and> length h < length hf
           \<and> list_at hf (Ref (length h)) = Some refs'
           \<and> list_all2 (is_scored h hf us) refs' cat"
  using inv
proof (induction "length cat - i" arbitrary: hc refs i)
  case 0
  have len: "length rvs = length cat"
    using cat by (rule list_all2_lengthD)
  have "list_at hc rr = Some rvs"
    using "0.prems"(1) rs by (rule list_at_ext)
  moreover have "i = length cat"
    using "0.hyps" "0.prems"(5) by simp
  ultimately have "score_loop_h hc rr (Ref (length h)) us i = Some (Inr hc)"
    by (subst score_loop_h.simps) (simp add: len)
  then show ?case
    using "0.prems" \<open>i = length cat\<close> by auto
next
  case (Suc k)
  let ?n = "length h"
  have len: "length rvs = length cat"
    using cat by (rule list_all2_lengthD)
  have i: "i < length cat"
    using Suc.hyps(2) by simp
  have rvs_hc: "list_at hc rr = Some rvs"
    using Suc.prems(1) rs by (rule list_at_ext)
  let ?v = "rvs ! i" and ?r = "cat ! i"
  have "recipe_at h ?v = Some ?r"
    using cat i by (simp add: list_all2_conv_all_nth)
  then obtain ing where f: "field h ?v ''name'' = Some (Str (name ?r))"
    "field h ?v ''ingredients'' = Some ing" "str_list_at h ing = Some (ingredients ?r)"
    "field h ?v ''instructions'' = Some (Str (instructions ?r))"
    by (auto simp: recipe_at_Some_iff)
  let ?d = "DictObj [(''name'', Str (name ?r)),
                     (''score'', Float (score (scored_dict us ?r))),
                     (''ingredients'', ing), (''instructions'', Str (instructions ?r))]"
  have body: "score_recipe_h hc us ?v = Inr ?d"
    using score_recipe_h_eq [OF field_ext [OF Suc.prems(1) f(1)] field_ext [OF Suc.prems(1) f(2)]
        str_list_at_ext [OF Suc.prems(1) f(3)] field_ext [OF Suc.prems(1) f(4)], of us]
    by (simp add: scored_dict_def)
  let ?h1 = "hc @ [?d]"
  let ?h2 = "?h1[?n := ListObj (refs @ [Ref (length hc)])]"
  have refs_h1: "list_at ?h1 (Ref ?n) = Some refs"
    using Suc.prems(2,3) by (simp add: list_at_def obj_at_def nth_append)
  have app: "list_append ?h1 (Ref ?n) (Ref (length hc)) = Inr ?h2"
    by (simp add: list_append_def refs_h1)
  have step: "score_loop_h hc rr (Ref ?n) us i = score_loop_h ?h2 rr (Ref ?n) us (Suc i)"
    by (subst score_loop_h.simps) (simp add: rvs_hc len i body alloc_def app)
  have k12: "keeps ?n hc ?h2"
    by (rule keeps_trans [OF keeps_alloc keeps_update])
  have k2: "keeps ?n h ?h2"
    using Suc.prems(1) k12 by (rule keeps_trans)
  have l2: "?n < length ?h2"
    using Suc.prems(2) by simp
  have refs2: "list_at ?h2 (Ref ?n) = Some (refs @ [Ref (length hc)])"
    using l2 by (simp add: list_at_def obj_at_def)
  have old: "list_all2 (is_scored h ?h2 us) refs (take i cat)"
    using Suc.prems(4) by (rule list_all2_mono) (rule is_scored_keeps [OF k12])
  have new: "is_scored h ?h2 us (Ref (length hc)) ?r"
    using Suc.prems(2) f(3)
    by (simp add: is_scored_def field_def dict_at_def obj_at_def nth_append)
  have all: "list_all2 (is_scored h ?h2 us) (refs @ [Ref (length hc)]) (take (Suc i) cat)"
    using old new i by (simp add: take_Suc_conv_app_nth list_all2_appendI)
  have "k = length cat - Suc i"
    using Suc.hyps(2) by simp
  from Suc.hyps(1) [OF this k2 l2 refs2 all] i step show ?case
    by simp
qed

lemma score_keys_eq:
  "list_all2 (is_scored h hf us) refs cat \<Longrightarrow>
   score_keys hf refs = Inr (map (\<lambda>r. score (scored_dict us r)) cat)"
  by (induction rule: list_all2_induct) (simp_all add: is_scored_def getitem_field)

lemma zip_keys:
  "list_all2 P xs ys \<Longrightarrow> zip (map k ys) xs = map (\<lambda>p. (k (snd p), fst p)) (zip xs ys)"
  by (induction rule: list_all2_induct) simp_all

lemma list_all2_sort_zip:
  assumes "list_all2 P xs ys"
  shows "list_all2 P (map snd (list_sort fst b (zip (map k ys) xs))) (list_sort k b ys)"
proof -
  let ?zs = "zip xs ys"
  let ?S = "list_sort (\<lambda>p. k (snd p)) b ?zs"
  have len: "length xs = length ys"
    using assms by (rule list_all2_lengthD)
  have "map snd (list_sort fst b (zip (map k ys) xs)) = map fst ?S"
    by (simp add: zip_keys [OF assms] list_sort_map)
  moreover have "list_sort k b ys = map snd ?S"
  proof -
    have "list_sort k b (map snd ?zs) = map snd ?S"
      by (rule list_sort_map)
    then show ?thesis using len by simp
  qed
  moreover have "\<forall>p\<in>set ?S. P (fst p) (snd p)"
    using assms by (auto simp: set_list_sort list_all2_iff)
  then have "list_all2 P (map fst ?S) (map snd ?S)"
    by (simp add: list_all2_map1 list_all2_map2 list_all2_same)
  ultimately show ?thesis by simp
qed

lemma list_all2_slice_to:
  assumes "list_all2 P xs ys"
  shows "list_all2 P (slice_to xs k) (slice_to ys k)"
proof -
  have "length xs = length ys"
    using assms by (rule list_all2_lengthD)
  then show ?thesis
    using assms by (simp add: slice_to_def list_all2_takeI)
qed

lemma suggest_recipes_h_correct:
  assumes "catalog_at h rr = Some cat"
  shows "\<exists>res h'. suggest_recipes_h h rr u top_k = Some (Inr (res, h'))
           \<and> keeps (length h) h h'
           \<and> result_at h' res =
               Some (slice_to (list_sort score True (map (scored_dict (user_set_of u)) cat)) top_k)"
proof -
  let ?n = "length h" and ?us = "user_set_of u"
  let ?key = "\<lambda>r. score (scored_dict ?us r)"
  obtain rvs where rvs: "list_at h rr = Some rvs"
    "list_all2 (\<lambda>v r. recipe_at h v = Some r) rvs cat"
    using assms by (auto simp: catalog_at_Some_iff)
  let ?h0 = "h @ [ListObj []]"
  have "list_at ?h0 (Ref ?n) = Some []"
    by (simp add: list_at_def obj_at_def)
  moreover have "list_all2 (is_scored h ?h0 ?us) [] (take 0 cat)"
    by simp
  ultimately obtain hf refs where loop:
    "score_loop_h ?h0 rr (Ref ?n) ?us 0 = Some (Inr hf)" "keeps ?n h hf" "?n < length hf"
    "list_at hf (Ref ?n) = Some refs" "list_all2 (is_scored h hf ?us) refs cat"
    using score_loop_h_correct [OF rvs keeps_alloc, of "ListObj []" "[]" ?us 0] by auto
  let ?sorted = "map snd (list_sort fst True (zip (map ?key cat) refs))"
  let ?h2 = "hf[?n := ListObj ?sorted]"
  have sort: "sort_by_score hf (Ref ?n) = Inr ?h2"
    by (simp add: sort_by_score_def loop(4) score_keys_eq [OF loop(5)])
  have k2: "keeps ?n h ?h2"
    using loop(2) keeps_update by (rule keeps_trans)
  have read: "the_list ?h2 (Ref ?n) = Inr ?sorted"
    using loop(3) by (simp add: the_list_def list_at_def obj_at_def)
  let ?h3 = "?h2 @ [ListObj (slice_to ?sorted top_k)]"
  let ?res = "Ref (length ?h2)"
  have call: "suggest_recipes_h h rr u top_k = Some (Inr (?res, ?h3))"
    by (simp add: suggest_recipes_h_def alloc_def loop(1) bind_exn_def sort read)
  have k3: "keeps ?n h ?h3"
    using k2 keeps_alloc by (rule keeps_trans)
  have kf3: "keeps ?n hf ?h3"
    by (rule keeps_trans [OF keeps_update keeps_alloc])
  have "list_all2 (is_scored h ?h3 ?us) refs cat"
    using loop(5) by (rule list_all2_mono) (rule is_scored_keeps [OF kf3])
  then have "list_all2 (is_scored h ?h3 ?us) ?sorted (list_sort ?key True cat)"
    by (rule list_all2_sort_zip)
  then have "list_all2 (\<lambda>v r. suggestion_at ?h3 v = Some (scored_dict ?us r))
               ?sorted (list_sort ?key True cat)"
    by (rule list_all2_mono) (rule is_scored_suggestion [OF k3])
  then have "list_all2 (\<lambda>v s. suggestion_at ?h3 v = Some s)
               ?sorted (list_sort score True (map (scored_dict ?us) cat))"
    by (simp add: list_sort_map list_all2_map2)
  then have "list_all2 (\<lambda>v s. suggestion_at ?h3 v = Some s) (slice_to ?sorted top_k)
               (slice_to (list_sort score True (map (scored_dict ?us) cat)) top_k)"
    by (rule list_all2_slice_to)
  moreover have "list_at ?h3 ?res = Some (slice_to ?sorted top_k)"
    by (simp add: list_at_def obj_at_def nth_append)
  ultimately have "result_at ?h3 ?res =
      Some (slice_to (list_sort score True (map (scored_dict ?us) cat)) top_k)"
    by (auto simp: result_at_Some_iff)
  with call k3 show ?thesis by blast
qed

subsection \<open>Two runs of the model\<close>

text \<open>
  The text \<^verbatim>\<open>Eggs, ONION\<close> against a catalog of one recipe with three ingredients, and a
  query that matches two recipes in full, which come back in catalog order.
\<close>

lemma on_search_omelette:
  "on_search [\<lparr>name = ''Omelette'', ingredients = [''eggs'', ''onion'', ''tomato''],
               instructions = ''Whisk.'', tags = []\<rparr>] ''Eggs, ONION''
     = Inr [\<lparr>name = ''Omelette'', ingredients = [''eggs'', ''onion'', ''tomato''],
             instructions = ''Whisk.'', score = 2 / 3\<rparr>]"
  by code_simp

lemma suggest_recipes_two_full_matches:
  "suggest_recipes
     [\<lparr>name = ''A'', ingredients = [''rice'', ''egg''], instructions = ''Fry.'', tags = []\<rparr>,
      \<lparr>name = ''B'', ingredients = [''lime''], instructions = ''Press.'', tags = []\<rparr>]
     [''lime'', ''egg'', ''rice''] 2
     = Inr [\<lparr>name = ''A'', ingredients = [''rice'', ''egg''], instructions = ''Fry.'', score = 1\<rparr>,
            \<lparr>name = ''B'', ingredients = [''lime''], instructions = ''Press.'', score = 1\<rparr>]"
  by code_simp

text \<open>
  A run on the heap: two recipes and the query \<^verbatim>\<open>rice\<close>. The objects 0 to 6 are the catalog;
  the call adds the list \<^verbatim>\<open>scored\<close> at 7, which the sort leaves in the order of the scores,
  the two result dicts at 8 and 9, and the slice at 10.
\<close>

lemma suggest_recipes_h_run:
  "suggest_recipes_h
     [ListObj [Str ''eggs'', Str ''onion'', Str ''tomato''],
      ListObj [Str ''breakfast''],
      DictObj [(''name'', Str ''Omelette''), (''ingredients'', Ref 0),
               (''instructions'', Str ''Whisk.''), (''tags'', Ref 1)],
      ListObj [Str ''rice'', Str ''egg''],
      ListObj [],
      DictObj [(''name'', Str ''Rice''), (''ingredients'', Ref 3),
               (''instructions'', Str ''Boil.''), (''tags'', Ref 4)],
      ListObj [Ref 2, Ref 5]] (Ref 6) [''rice''] 1
   = Some (Inr (Ref 10,
     [ListObj [Str ''eggs'', Str ''onion'', Str ''tomato''],
      ListObj [Str ''breakfast''],
      DictObj [(''name'', Str ''Omelette''), (''ingredients'', Ref 0),
               (''instructions'', Str ''Whisk.''), (''tags'', Ref 1)],
      ListObj [Str ''rice'', Str ''egg''],
      ListObj [],
      DictObj [(''name'', Str ''Rice''), (''ingredients'', Ref 3),
               (''instructions'', Str ''Boil.''), (''tags'', Ref 4)],
      ListObj [Ref 2, Ref 5],
      ListObj [Ref 9, Ref 8],
      DictObj [(''name'', Str ''Omelette''), (''score'', Float 0),
               (''ingredients'', Ref 0), (''instructions'', Str ''Whisk.'')],
      DictObj [(''name'', Str ''Rice''), (''score'', Float (1 / 2)),
               (''ingredients'', Ref 3), (''instructions'', Str ''Boil.'')],
      ListObj [Ref 9]]))"
  by code_simp

section \<open>The claims\<close>

subsection \<open>The score is the overlap fraction\<close>

text \<open>
  Claim C1. For a query whose normalized user set is not empty, the loop gives every
  catalog recipe, in catalog order, the score \<open>spec_score\<close>: the number of the recipe's
  distinct lower-cased ingredients that are in the user set, divided by the number of its
  distinct lower-cased ingredients, or by 1 if it has none. A repeated ingredient counts
  once. Every entry of the result of \<open>suggest_recipes\<close> is such a scored recipe.
\<close>

theorem score_is_overlap_fraction:
  assumes "user_set_of u \<noteq> {}"
  shows "score_loop (user_set_of u) cat [] =
           Inr (map (\<lambda>r. \<lparr>name = name r, ingredients = ingredients r,
                           instructions = instructions r,
                           score = spec_score (user_set_of u) r\<rparr>) cat)
         \<and> (\<forall>res. suggest_recipes cat u top_k = Inr res \<longrightarrow>
               (\<forall>x\<in>set res. \<exists>r\<in>set cat.
                  x = \<lparr>name = name r, ingredients = ingredients r,
                       instructions = instructions r,
                       score = spec_score (user_set_of u) r\<rparr>))"
proof -
  let ?us = "user_set_of u"
  have "score_loop ?us cat [] = Inr (map (scored_dict ?us) cat)"
    by (simp add: score_loop_eq)
  moreover have "\<exists>r\<in>set cat. x = scored_dict ?us r"
    if "suggest_recipes cat u top_k = Inr res" "x \<in> set res" for res x
    using result_in_scored [OF that] by auto
  ultimately show ?thesis
    by (simp add: scored_dict_spec [symmetric])
qed

theorem score_is_overlap_fraction_witness:
  "user_set_of [''Eggs'', ''ONION''] \<noteq> {}
   \<and> score_loop (user_set_of [''Eggs'', ''ONION''])
        [\<lparr>name = ''Omelette'', ingredients = [''eggs'', ''onion'', ''tomato'', ''eggs''],
          instructions = ''Whisk.'', tags = []\<rparr>] []
     = Inr [\<lparr>name = ''Omelette'', ingredients = [''eggs'', ''onion'', ''tomato'', ''eggs''],
             instructions = ''Whisk.'', score = 2 / 3\<rparr>]"
proof -
  have h: "user_set_of [''Eggs'', ''ONION''] \<noteq> {}" by code_simp
  have s: "spec_score (user_set_of [''Eggs'', ''ONION''])
             \<lparr>name = ''Omelette'', ingredients = [''eggs'', ''onion'', ''tomato'', ''eggs''],
              instructions = ''Whisk.'', tags = []\<rparr> = 2 / 3"
    by code_simp
  show ?thesis
    using h s
      score_is_overlap_fraction [OF h,
        of "[\<lparr>name = ''Omelette'', ingredients = [''eggs'', ''onion'', ''tomato'', ''eggs''],
              instructions = ''Whisk.'', tags = []\<rparr>]" 1]
    by simp
qed

subsection \<open>Ranking\<close>

text \<open>
  Claim C2. The result of \<open>suggest_recipes\<close> is in non-increasing order of score, and two
  results with the same score are in the order of their recipes in the catalog: there are
  catalog positions \<open>ps\<close>, one for each result, such that the result at \<open>p\<close> is the scored
  recipe at position \<open>ps ! p\<close>, a later result never has a greater score, and of two results
  with equal scores the later one has the greater catalog position.
\<close>

theorem ranked_and_stable:
  assumes "suggest_recipes cat u top_k = Inr res"
  shows "\<exists>ps. length ps = length res
           \<and> (\<forall>p<length res. ps ! p < length cat
                 \<and> res ! p = scored_dict (user_set_of u) (cat ! (ps ! p)))
           \<and> (\<forall>p q. p < q \<and> q < length res \<longrightarrow>
                 score (res ! q) \<le> score (res ! p)
                 \<and> (score (res ! p) = score (res ! q) \<longrightarrow> ps ! p < ps ! q))"
proof -
  let ?g = "\<lambda>i. scored_dict (user_set_of u) (cat ! i)"
  obtain ps where ps: "suggest_recipes cat u top_k = Inr (map ?g ps)"
    "\<forall>i\<in>set ps. i < length cat"
    "sorted_wrt (\<lambda>i j. score (?g j) \<le> score (?g i)
                          \<and> (score (?g i) = score (?g j) \<longrightarrow> i < j)) ps"
    using suggest_recipes_positions [of cat u top_k] by blast
  from ps(1) assms have res: "res = map ?g ps" by simp
  have "length ps = length res" by (simp add: res)
  moreover have "\<forall>p<length res. ps ! p < length cat \<and> res ! p = ?g (ps ! p)"
    using ps(2) by (simp add: res)
  moreover have "\<forall>p q. p < q \<and> q < length res \<longrightarrow>
                 score (res ! q) \<le> score (res ! p)
                 \<and> (score (res ! p) = score (res ! q) \<longrightarrow> ps ! p < ps ! q)"
    using ps(3) by (simp add: res sorted_wrt_iff_nth_less)
  ultimately show ?thesis by blast
qed

theorem ranked_and_stable_witness:
  "\<exists>res. suggest_recipes recipes [''eggs'', ''onion''] 3 = Inr res
     \<and> (\<exists>ps. length ps = length res
           \<and> (\<forall>p<length res. ps ! p < length recipes
                 \<and> res ! p = scored_dict (user_set_of [''eggs'', ''onion'']) (recipes ! (ps ! p)))
           \<and> (\<forall>p q. p < q \<and> q < length res \<longrightarrow>
                 score (res ! q) \<le> score (res ! p)
                 \<and> (score (res ! p) = score (res ! q) \<longrightarrow> ps ! p < ps ! q)))"
proof -
  obtain res where r: "suggest_recipes recipes [''eggs'', ''onion''] 3 = Inr res"
    by (simp add: suggest_recipes_eq)
  show ?thesis
    using r ranked_and_stable [OF r] by simp
qed

subsection \<open>Length of the result\<close>

text \<open>
  Claim C3. For every catalog, every list of user ingredients (also one whose normalized
  set is empty) and every positive \<open>top_k\<close>, \<open>suggest_recipes\<close> returns without error a list
  of length \<open>min(top_k, catalog size)\<close>. The catalog need not even be non-empty.
\<close>

theorem suggest_recipes_length:
  "0 < top_k \<Longrightarrow>
   \<exists>res. suggest_recipes cat u top_k = Inr res \<and> length res = min (nat top_k) (length cat)"
  by (simp add: suggest_recipes_eq length_slice_to_pos length_list_sort)

theorem suggest_recipes_length_witness:
  "(0::int) < 3 \<and> user_set_of [''  ''] = {} \<and>
   (\<exists>res. suggest_recipes recipes [''  ''] 3 = Inr res \<and> length res = 3)"
proof -
  have k: "(0::int) < 3" by simp
  have e: "user_set_of [''  ''] = {}" by code_simp
  have n: "length recipes = 10" by (simp add: recipes_def)
  show ?thesis
    using k e n suggest_recipes_length [OF k, of recipes "[''  '']"] by simp
qed

subsection \<open>A query without ingredients\<close>

text \<open>
  Claim C4 says that a query whose normalized set is empty gets the empty list. The code
  has no such case: every recipe is scored 0 and the slice keeps the first \<open>top_k\<close> of
  them. The text \<^verbatim>\<open>,\<close> passes the check of \<^verbatim>\<open>on_find\<close>, has no ingredient in it, and over a
  catalog of one recipe the search returns that recipe; so does \<open>suggest_recipes\<close> for
  the empty list of ingredients.
\<close>

theorem empty_query_counterexample:
  "user_set_of (on_search_ingredients '','') = {}
   \<and> find_clicked [\<lparr>name = ''Omelette'', ingredients = [''eggs'', ''onion'', ''tomato''],
                    instructions = ''Whisk.'', tags = []\<rparr>] '',''
     = Some (Inr [\<lparr>name = ''Omelette'', ingredients = [''eggs'', ''onion'', ''tomato''],
                   instructions = ''Whisk.'', score = 0\<rparr>])
   \<and> user_set_of [] = {}
   \<and> suggest_recipes [\<lparr>name = ''Omelette'', ingredients = [''eggs'', ''onion'', ''tomato''],
                       instructions = ''Whisk.'', tags = []\<rparr>] [] 3
     = Inr [\<lparr>name = ''Omelette'', ingredients = [''eggs'', ''onion'', ''tomato''],
             instructions = ''Whisk.'', score = 0\<rparr>]"
  by code_simp

text \<open>
  Claim C4, amended. For a list of ingredients whose normalized set is empty and every
  \<open>top_k\<close>, \<open>suggest_recipes\<close> raises no error and returns the catalog recipes in catalog
  order, each with score 0, cut by \<^verbatim>\<open>scored[:top_k]\<close>. In the application, text that is empty
  or has whitespace only is refused by \<^verbatim>\<open>on_find\<close> with a warning, and no search runs; text
  that passes this check and has no ingredient in it gets the first three recipes of the
  catalog, each with score 0.
\<close>

theorem empty_query_returns_catalog_prefix:
  "(user_set_of u = {} \<longrightarrow>
      suggest_recipes cat u top_k =
        Inr (slice_to (map (\<lambda>r. \<lparr>name = name r, ingredients = ingredients r,
                                  instructions = instructions r, score = 0\<rparr>) cat) top_k))
   \<and> ((\<forall>c\<in>set text. isspace c) \<longrightarrow> find_clicked cat text = None)
   \<and> (str_strip text \<noteq> [] \<and> user_set_of (on_search_ingredients text) = {} \<longrightarrow>
        find_clicked cat text =
          Some (Inr (take 3 (map (\<lambda>r. \<lparr>name = name r, ingredients = ingredients r,
                                        instructions = instructions r, score = 0\<rparr>) cat))))"
proof -
  let ?z = "\<lambda>r. \<lparr>name = name r, ingredients = ingredients r,
                  instructions = instructions r, score = (0::rat)\<rparr>"
  have z: "scored_dict {} = ?z"
    by (rule ext) (rule scored_dict_empty)
  have sorted: "list_sort score True (map ?z cat) = map ?z cat"
    by (rule list_sort_all_equal [where c = 0]) auto
  have a: "suggest_recipes cat u top_k = Inr (slice_to (map ?z cat) top_k)"
    if "user_set_of u = {}" for u top_k
    using that by (simp add: suggest_recipes_eq z sorted)
  have b: "find_clicked cat text = None" if "\<forall>c\<in>set text. isspace c"
    using that by (simp add: find_clicked_def on_find_def str_strip_blank)
  have "find_clicked cat text = Some (Inr (take 3 (map ?z cat)))"
    if "str_strip text \<noteq> []" "user_set_of (on_search_ingredients text) = {}"
  proof -
    have "find_clicked cat text = Some (suggest_recipes cat (on_search_ingredients text) 3)"
      using that(1) by (simp add: find_clicked_def on_find_def on_search_def)
    also have "\<dots> = Some (Inr (slice_to (map ?z cat) 3))"
      using that(2) by (simp add: a)
    finally show ?thesis by (simp add: slice_to_def)
  qed
  with a b show ?thesis by blast
qed

theorem empty_query_returns_catalog_prefix_witness:
  "user_set_of ['' '', []] = {} \<and> list_all isspace ''  ''
   \<and> str_strip '' , '' \<noteq> [] \<and> user_set_of (on_search_ingredients '' , '') = {}
   \<and> suggest_recipes recipes ['' '', []] 2 =
        Inr (slice_to (map (\<lambda>r. \<lparr>name = name r, ingredients = ingredients r,
                                  instructions = instructions r, score = 0\<rparr>) recipes) 2)
   \<and> find_clicked recipes ''  '' = None
   \<and> find_clicked recipes '' , '' =
          Some (Inr (take 3 (map (\<lambda>r. \<lparr>name = name r, ingredients = ingredients r,
                                        instructions = instructions r, score = 0\<rparr>) recipes)))"
proof -
  have a: "user_set_of ['' '', []] = {}" by code_simp
  have b: "\<forall>c\<in>set ''  ''. isspace c" by (simp add: isspace_def)
  then have b': "list_all isspace ''  ''" by (simp add: list_all_iff)
  have c: "str_strip '' , '' \<noteq> []" by code_simp
  have d: "user_set_of (on_search_ingredients '' , '') = {}" by code_simp
  have 1: "suggest_recipes recipes ['' '', []] 2 =
        Inr (slice_to (map (\<lambda>r. \<lparr>name = name r, ingredients = ingredients r,
                                  instructions = instructions r, score = 0\<rparr>) recipes) 2)"
    using a empty_query_returns_catalog_prefix [of "['' '', []]" recipes 2 "''  ''"] by blast
  have 2: "find_clicked recipes ''  '' = None"
    using b empty_query_returns_catalog_prefix [of "[]" recipes 2 "''  ''"] by blast
  have 3: "find_clicked recipes '' , '' =
          Some (Inr (take 3 (map (\<lambda>r. \<lparr>name = name r, ingredients = ingredients r,
                                        instructions = instructions r, score = 0\<rparr>) recipes)))"
    using c d empty_query_returns_catalog_prefix [of "[]" recipes 2 "'' , ''"] by blast
  show ?thesis
    using a b' c d 1 2 3 by blast
qed

subsection \<open>A \<open>top_k\<close> that is not positive\<close>

text \<open>
  Claim C5 says that a \<open>top_k\<close> of zero or less behaves as \<open>top_k = 1\<close>. The code does not
  clamp \<open>top_k\<close>: with \<open>top_k = 0\<close> the slice is empty, while \<open>top_k = 1\<close> gives the best
  recipe.
\<close>

theorem nonpositive_top_k_counterexample:
  "suggest_recipes [\<lparr>name = ''Omelette'', ingredients = [''eggs'', ''onion'', ''tomato''],
                     instructions = ''Whisk.'', tags = []\<rparr>] [''eggs''] 0 = Inr []
   \<and> suggest_recipes [\<lparr>name = ''Omelette'', ingredients = [''eggs'', ''onion'', ''tomato''],
                     instructions = ''Whisk.'', tags = []\<rparr>] [''eggs''] 1
     = Inr [\<lparr>name = ''Omelette'', ingredients = [''eggs'', ''onion'', ''tomato''],
             instructions = ''Whisk.'', score = 1 / 3\<rparr>]"
  by code_simp

text \<open>
  Claim C5, amended. For every query and every \<open>top_k\<close> that is not positive,
  \<open>suggest_recipes\<close> raises no error and returns \<^verbatim>\<open>scored[:top_k]\<close> of the full ranking: the
  empty list for \<open>top_k = 0\<close>, and for a negative \<open>top_k\<close> the ranking without its last
  \<open>- top_k\<close> entries, which is empty when the catalog has no more than \<open>- top_k\<close> recipes.
\<close>

theorem nonpositive_top_k_slices:
  assumes "top_k \<le> 0"
  shows "\<exists>ranked. suggest_recipes cat u (int (length cat)) = Inr ranked
           \<and> length ranked = length cat
           \<and> suggest_recipes cat u top_k =
               Inr (if top_k = 0 then [] else take (length cat - nat (- top_k)) ranked)"
proof -
  let ?ranked = "list_sort score True (map (scored_dict (user_set_of u)) cat)"
  have len: "length ?ranked = length cat"
    by (simp add: length_list_sort)
  have "suggest_recipes cat u (int (length cat)) = Inr ?ranked"
    using len by (simp add: suggest_recipes_eq slice_to_def)
  moreover have "slice_to ?ranked top_k =
      (if top_k = 0 then [] else take (length cat - nat (- top_k)) ?ranked)"
  proof (cases "top_k = 0")
    case True
    then show ?thesis by (simp add: slice_to_def)
  next
    case False
    with assms have "top_k < 0" by simp
    moreover from this have "nat (int (length cat) + top_k) = length cat - nat (- top_k)"
      by linarith
    ultimately show ?thesis using len by (simp add: slice_to_def)
  qed
  ultimately show ?thesis using len by (simp add: suggest_recipes_eq)
qed

theorem nonpositive_top_k_slices_witness:
  "(- 8::int) \<le> 0
   \<and> (\<exists>ranked. suggest_recipes recipes [''eggs'', ''onion''] 10 = Inr ranked
         \<and> suggest_recipes recipes [''eggs'', ''onion''] (- 8) = Inr (take 2 ranked))"
proof -
  have k: "(- 8::int) \<le> 0" by simp
  have n: "length recipes = 10" by (simp add: recipes_def)
  show ?thesis
    using k n nonpositive_top_k_slices [OF k, of recipes "[''eggs'', ''onion'']"] by auto
qed

subsection \<open>Bounds of the score\<close>

text \<open>
  Claim C6 says that a recipe all of whose distinct ingredients are in the user set has
  score 1. A recipe without ingredients meets the condition, and the denominator
  \<^verbatim>\<open>max(1, len(r_set))\<close> gives it the score 0.
\<close>

theorem score_in_unit_interval_counterexample:
  "set (map str_lower (ingredients
          \<lparr>name = ''Water'', ingredients = [], instructions = ''Pour.'', tags = []\<rparr>))
     \<subseteq> user_set_of [''eggs'']
   \<and> suggest_recipes
        [\<lparr>name = ''Water'', ingredients = [], instructions = ''Pour.'', tags = []\<rparr>] [''eggs''] 1
     = Inr [\<lparr>name = ''Water'', ingredients = [], instructions = ''Pour.'', score = 0\<rparr>]"
  by code_simp

text \<open>
  Claim C6, amended. Every recipe is scored without error with a score between 0 and 1,
  and so is every entry of a result of \<open>suggest_recipes\<close>; the score is exactly 1 when the
  recipe has at least one ingredient and all its distinct lower-cased ingredients are in
  the user set.
\<close>

theorem score_in_unit_interval:
  "(\<exists>d. score_recipe us r = Inr d \<and> 0 \<le> score d \<and> score d \<le> 1
        \<and> (ingredients r \<noteq> [] \<and> set (map str_lower (ingredients r)) \<subseteq> us \<longrightarrow> score d = 1))
   \<and> (\<forall>res. suggest_recipes cat u top_k = Inr res \<longrightarrow>
         (\<forall>x\<in>set res. 0 \<le> score x \<and> score x \<le> 1))"
proof -
  have "0 \<le> score x \<and> score x \<le> 1"
    if "suggest_recipes cat u top_k = Inr res" "x \<in> set res" for res x
    using result_in_scored [OF that] score_scored_dict_bounds by auto
  then show ?thesis
    using score_scored_dict_bounds [of us r] score_scored_dict_full [of r us]
    by (simp add: score_recipe_eq)
qed

theorem score_in_unit_interval_witness:
  "ingredients \<lparr>name = ''Omelette'', ingredients = [''eggs'', ''onion''],
                instructions = ''Whisk.'', tags = []\<rparr> \<noteq> []
   \<and> set (map str_lower (ingredients \<lparr>name = ''Omelette'', ingredients = [''eggs'', ''onion''],
                instructions = ''Whisk.'', tags = []\<rparr>)) \<subseteq> user_set_of [''onion'', ''salt'', ''eggs'']
   \<and> (\<exists>d. score_recipe (user_set_of [''onion'', ''salt'', ''eggs''])
              \<lparr>name = ''Omelette'', ingredients = [''eggs'', ''onion''],
               instructions = ''Whisk.'', tags = []\<rparr> = Inr d \<and> score d = 1)"
proof -
  have a: "ingredients \<lparr>name = ''Omelette'', ingredients = [''eggs'', ''onion''],
                instructions = ''Whisk.'', tags = []\<rparr> \<noteq> []" by simp
  have b: "set (map str_lower (ingredients \<lparr>name = ''Omelette'', ingredients = [''eggs'', ''onion''],
                instructions = ''Whisk.'', tags = []\<rparr>)) \<subseteq> user_set_of [''onion'', ''salt'', ''eggs'']"
    by code_simp
  show ?thesis
    using a b
      score_in_unit_interval [of "user_set_of [''onion'', ''salt'', ''eggs'']"
        "\<lparr>name = ''Omelette'', ingredients = [''eggs'', ''onion''],
          instructions = ''Whisk.'', tags = []\<rparr>" "[]" "[]" 1]
    by blast
qed

subsection \<open>An empty catalog\<close>

text \<open>
  Claim C7 says that an empty catalog is refused with an \<^verbatim>\<open>InvalidCatalog\<close> error. The code
  has no matcher object, no construction step and no such error: the catalog is the
  module-level list, and a query over an empty catalog succeeds with the empty list.
\<close>

theorem empty_catalog_counterexample:
  "suggest_recipes [] [''eggs''] 3 = Inr []"
  by code_simp

text \<open>
  Claim C7, amended. \<open>suggest_recipes\<close> raises no error for any catalog, query and
  \<open>top_k\<close>; over an empty catalog it returns the empty list.
\<close>

theorem suggest_recipes_never_raises:
  "\<exists>res. suggest_recipes cat u top_k = Inr res \<and> (cat = [] \<longrightarrow> res = [])"
  by (auto simp add: suggest_recipes_eq list_sort_def slice_to_def)

theorem suggest_recipes_never_raises_witness:
  "\<exists>res. suggest_recipes [] [''eggs'', ''onion''] 2 = Inr res \<and> res = []"
  using suggest_recipes_never_raises [of "[]" "[''eggs'', ''onion'']" 2] by simp

subsection \<open>The catalog is left as it was\<close>

text \<open>
  Claim C8. On a heap that holds a catalog behind \<open>recipes_ref\<close>, a call of
  \<open>suggest_recipes\<close> ends without error and leaves every object that was there as it was:
  the catalog list, every recipe dict and every list of ingredients or tags; its writes,
  the \<^verbatim>\<open>append\<close> and the \<^verbatim>\<open>sort\<close>, go to the list \<^verbatim>\<open>scored\<close> that the call created. The list it
  returns reads as the result of the function on values. The same call on the heap it
  leaves returns a list that reads the same, and leaves the first result as it was.
\<close>

theorem suggest_recipes_heap_frame:
  assumes "catalog_at h recipes_ref = Some cat"
  shows "\<exists>res h' answer.
           suggest_recipes_h h recipes_ref u top_k = Some (Inr (res, h'))
           \<and> take (length h) h' = h
           \<and> catalog_at h' recipes_ref = Some cat
           \<and> suggest_recipes cat u top_k = Inr answer
           \<and> result_at h' res = Some answer
           \<and> (\<exists>res2 h2. suggest_recipes_h h' recipes_ref u top_k = Some (Inr (res2, h2))
                 \<and> take (length h') h2 = h'
                 \<and> result_at h2 res2 = Some answer
                 \<and> result_at h2 res = Some answer)"
proof -
  let ?answer = "slice_to (list_sort score True (map (scored_dict (user_set_of u)) cat)) top_k"
  obtain res h' where first: "suggest_recipes_h h recipes_ref u top_k = Some (Inr (res, h'))"
    "keeps (length h) h h'" "result_at h' res = Some ?answer"
    using suggest_recipes_h_correct [OF assms] by blast
  have cat': "catalog_at h' recipes_ref = Some cat"
    using first(2) assms by (rule catalog_at_ext)
  obtain res2 h2 where second: "suggest_recipes_h h' recipes_ref u top_k = Some (Inr (res2, h2))"
    "keeps (length h') h' h2" "result_at h2 res2 = Some ?answer"
    using suggest_recipes_h_correct [OF cat'] by blast
  have "result_at h2 res = Some ?answer"
    using second(2) first(3) by (rule result_at_ext)
  moreover have "suggest_recipes cat u top_k = Inr ?answer"
    by (rule suggest_recipes_eq)
  ultimately show ?thesis
    using first cat' second by (blast dest: keeps_take)
qed

theorem suggest_recipes_heap_frame_witness:
  "catalog_at
     [ListObj [Str ''yogurt'', Str ''banana'', Str ''berries'', Str ''honey'', Str ''granola''],
      ListObj [Str ''breakfast'', Str ''healthy''],
      DictObj [(''name'', Str ''Fruit Yogurt Bowl''), (''ingredients'', Ref 0),
               (''instructions'', Str ''Layer yogurt, fruit and granola.''), (''tags'', Ref 1)],
      ListObj [Str ''broccoli'', Str ''carrot'', Str ''pepper'', Str ''soy sauce'', Str ''garlic''],
      ListObj [Str ''vegan'', Str ''fast''],
      DictObj [(''name'', Str ''Stir-Fry Veggies''), (''ingredients'', Ref 3),
               (''instructions'', Str ''Stir fry on high heat.''), (''tags'', Ref 4)],
      ListObj [Ref 2, Ref 5]] (Ref 6)
     = Some (drop 8 recipes)
   \<and> (\<exists>res h' answer.
         suggest_recipes_h
           [ListObj [Str ''yogurt'', Str ''banana'', Str ''berries'', Str ''honey'', Str ''granola''],
            ListObj [Str ''breakfast'', Str ''healthy''],
            DictObj [(''name'', Str ''Fruit Yogurt Bowl''), (''ingredients'', Ref 0),
                     (''instructions'', Str ''Layer yogurt, fruit and granola.''), (''tags'', Ref 1)],
            ListObj [Str ''broccoli'', Str ''carrot'', Str ''pepper'', Str ''soy sauce'', Str ''garlic''],
            ListObj [Str ''vegan'', Str ''fast''],
            DictObj [(''name'', Str ''Stir-Fry Veggies''), (''ingredients'', Ref 3),
                     (''instructions'', Str ''Stir fry on high heat.''), (''tags'', Ref 4)],
            ListObj [Ref 2, Ref 5]] (Ref 6) [''Carrot'', ''honey '', ''garlic''] 3
           = Some (Inr (res, h'))
         \<and> take 7 h' =
             [ListObj [Str ''yogurt'', Str ''banana'', Str ''berries'', Str ''honey'', Str ''granola''],
              ListObj [Str ''breakfast'', Str ''healthy''],
              DictObj [(''name'', Str ''Fruit Yogurt Bowl''), (''ingredients'', Ref 0),
                       (''instructions'', Str ''Layer yogurt, fruit and granola.''), (''tags'', Ref 1)],
              ListObj [Str ''broccoli'', Str ''carrot'', Str ''pepper'', Str ''soy sauce'', Str ''garlic''],
              ListObj [Str ''vegan'', Str ''fast''],
              DictObj [(''name'', Str ''Stir-Fry Veggies''), (''ingredients'', Ref 3),
                       (''instructions'', Str ''Stir fry on high heat.''), (''tags'', Ref 4)],
              ListObj [Ref 2, Ref 5]]
         \<and> catalog_at h' (Ref 6) = Some (drop 8 recipes)
         \<and> suggest_recipes (drop 8 recipes) [''Carrot'', ''honey '', ''garlic''] 3 = Inr answer
         \<and> result_at h' res = Some answer)"
proof -
  let ?h = "[ListObj [Str ''yogurt'', Str ''banana'', Str ''berries'', Str ''honey'', Str ''granola''],
      ListObj [Str ''breakfast'', Str ''healthy''],
      DictObj [(''name'', Str ''Fruit Yogurt Bowl''), (''ingredients'', Ref 0),
               (''instructions'', Str ''Layer yogurt, fruit and granola.''), (''tags'', Ref 1)],
      ListObj [Str ''broccoli'', Str ''carrot'', Str ''pepper'', Str ''soy sauce'', Str ''garlic''],
      ListObj [Str ''vegan'', Str ''fast''],
      DictObj [(''name'', Str ''Stir-Fry Veggies''), (''ingredients'', Ref 3),
               (''instructions'', Str ''Stir fry on high heat.''), (''tags'', Ref 4)],
      ListObj [Ref 2, Ref 5]]"
  have c: "catalog_at ?h (Ref 6) = Some (drop 8 recipes)"
    by code_simp
  have n: "length ?h = 7"
    by simp
  show ?thesis
    using c suggest_recipes_heap_frame [OF c, of "[''Carrot'', ''honey '', ''garlic'']" 3]
    unfolding n by blast
qed

subsection \<open>The result depends on the normalized set only\<close>



subsection \<open>Results are catalog entries\<close>

text \<open>
  Claim C10. Every entry of a result of \<open>suggest_recipes\<close> stands for a catalog recipe of
  its own: there are catalog positions \<open>ps\<close>, one for each result and no two the same, such
  that the name, the ingredients and the instructions of the result at \<open>p\<close> are those of
  the recipe at position \<open>ps ! p\<close>.
\<close>

theorem results_are_distinct_catalog_entries:
  assumes "suggest_recipes cat u top_k = Inr res"
  shows "\<exists>ps. length ps = length res \<and> distinct ps
           \<and> (\<forall>p<length res. ps ! p < length cat
                 \<and> name (res ! p) = name (cat ! (ps ! p))
                 \<and> ingredients (res ! p) = ingredients (cat ! (ps ! p))
                 \<and> instructions (res ! p) = instructions (cat ! (ps ! p)))"
proof -
  let ?g = "\<lambda>i. scored_dict (user_set_of u) (cat ! i)"
  obtain ps where ps: "suggest_recipes cat u top_k = Inr (map ?g ps)"
    "distinct ps" "\<forall>i\<in>set ps. i < length cat"
    using suggest_recipes_positions [of cat u top_k] by blast
  from ps(1) assms have res: "res = map ?g ps" by simp
  have "length ps = length res" by (simp add: res)
  moreover have "\<forall>p<length res. ps ! p < length cat
                 \<and> name (res ! p) = name (cat ! (ps ! p))
                 \<and> ingredients (res ! p) = ingredients (cat ! (ps ! p))
                 \<and> instructions (res ! p) = instructions (cat ! (ps ! p))"
    using ps(3) by (simp add: res scored_dict_fields)
  ultimately show ?thesis using ps(2) by blast
qed

theorem results_are_distinct_catalog_entries_witness:
  "\<exists>res. suggest_recipes recipes [''rice'', ''carrot''] 4 = Inr res
     \<and> (\<exists>ps. length ps = length res \<and> distinct ps
           \<and> (\<forall>p<length res. ps ! p < length recipes
                 \<and> name (res ! p) = name (recipes ! (ps ! p))
                 \<and> ingredients (res ! p) = ingredients (recipes ! (ps ! p))
                 \<and> instructions (res ! p) = instructions (recipes ! (ps ! p))))"
proof -
  obtain res where r: "suggest_recipes recipes [''rice'', ''carrot''] 4 = Inr res"
    by (simp add: suggest_recipes_eq)
  show ?thesis
    using r results_are_distinct_catalog_entries [OF r] by simp
qed

end
